theory Spec2Isabelle
  imports Main "HOL-Library.Char_ord" "HOL-Library.List_Lexorder" "HOL-Library.Multiset"
begin

section \<open>Python text primitives used by \<^verbatim>\<open>NVVP.getMarkerInfo\<close>\<close>

text \<open>
  Marker texts are Python \<^verbatim>\<open>str\<close> values. They are modelled as \<^typ>\<open>string\<close>, a list of
  characters with code points 0 to 255, compared by code point as Python compares text
  (the order on \<^typ>\<open>char\<close> by code point, lifted lexicographically to lists).
\<close>

datatype error =
    AssertionError string   \<comment> \<open>a failed \<^verbatim>\<open>assert\<close>, tagged with the function it is in\<close>
  | IndexError
  | ValueError
  | KeyError
  | TypeError
  | EvalError               \<comment> \<open>any exception raised by the builtin \<^verbatim>\<open>eval\<close>\<close>

text \<open>\<^verbatim>\<open>s.startswith(p)\<close>\<close>

fun startswith :: "string \<Rightarrow> string \<Rightarrow> bool" where
  "startswith s [] = True"
| "startswith [] (p # ps) = False"
| "startswith (c # cs) (p # ps) = (c = p \<and> startswith cs ps)"

text \<open>\<^verbatim>\<open>x in m\<close> for two texts (also \<^verbatim>\<open>m.find(x) >= 0\<close>): \<open>x\<close> occurs in \<open>m\<close>.\<close>

fun str_in :: "string \<Rightarrow> string \<Rightarrow> bool" where
  "str_in x [] = (x = [])"
| "str_in x (c # cs) = (startswith (c # cs) x \<or> str_in x cs)"

text \<open>
  \<^verbatim>\<open>m.split(sep)\<close> for a non-empty separator: the text is cut at the occurrences of
  \<open>sep\<close> found from left to right, without overlap. \<open>split_from sep acc s\<close> is the scan with
  the current field \<open>acc\<close> (reversed) and the rest \<open>s\<close> of the text. Every separator in the
  source is a non-empty literal; for the empty separator Python raises and the scan here
  returns the text whole.
\<close>

function split_from :: "string \<Rightarrow> string \<Rightarrow> string \<Rightarrow> string list" where
  "split_from sep acc [] = [rev acc]"
| "split_from sep acc (c # cs) =
     (if sep \<noteq> [] \<and> startswith (c # cs) sep
      then rev acc # split_from sep [] (drop (length sep) (c # cs))
      else split_from sep (c # acc) cs)"
  by pat_completeness auto
termination
  by (relation "measure (\<lambda>(sep, acc, s). length s)") auto

definition str_split :: "string \<Rightarrow> string \<Rightarrow> string list" where
  "str_split sep m = split_from sep [] m"

text \<open>
  \<^verbatim>\<open>int(s)\<close> for a text: white space is stripped on both sides, then an optional sign, then
  decimal digits, where single underscores may stand between digits. \<open>None\<close> is Python's
  \<^verbatim>\<open>ValueError\<close>. Among the code points below 256 the white space of Python is 9 to 13,
  28 to 32, 133 and 160, and the decimal digits are \<^verbatim>\<open>0\<close> to \<^verbatim>\<open>9\<close>. (The limit that later
  interpreters put on the number of digits is not modelled.)
\<close>

definition isspace :: "char \<Rightarrow> bool" where
  "isspace c = (let n = (of_char c :: nat) in
     (9 \<le> n \<and> n \<le> 13) \<or> (28 \<le> n \<and> n \<le> 32) \<or> n = 133 \<or> n = 160)"

definition strip :: "string \<Rightarrow> string" where
  "strip s = rev (dropWhile isspace (rev (dropWhile isspace s)))"

definition isdigit :: "char \<Rightarrow> bool" where
  "isdigit c = (let n = (of_char c :: nat) in 48 \<le> n \<and> n \<le> 57)"

definition digit_val :: "char \<Rightarrow> int" where
  "digit_val c = int (of_char c) - 48"

text \<open>
  \<open>digits_from acc s\<close> reads the rest of a number whose digits so far have the value
  \<open>acc\<close>; the character before \<open>s\<close> was a digit.
\<close>

fun digits_from :: "int \<Rightarrow> string \<Rightarrow> int option" where
  "digits_from acc [] = Some acc"
| "digits_from acc [c] = (if isdigit c then Some (10 * acc + digit_val c) else None)"
| "digits_from acc (c # d # s) =
     (if isdigit c then digits_from (10 * acc + digit_val c) (d # s)
      else if c = CHR ''_'' \<and> isdigit d then digits_from (10 * acc + digit_val d) s
      else None)"

definition number :: "string \<Rightarrow> int option" where
  "number s = (case s of [] \<Rightarrow> None
     | c # cs \<Rightarrow> if isdigit c then digits_from (digit_val c) cs else None)"

definition py_int :: "string \<Rightarrow> int option" where
  "py_int s = (case strip s of
       [] \<Rightarrow> None
     | c # cs \<Rightarrow>
         if c = CHR ''-'' then map_option uminus (number cs)
         else if c = CHR ''+'' then number cs
         else number (c # cs))"

text \<open>A loop that calls a function which may raise stops at the first exception.\<close>

fun for_each :: "('a \<Rightarrow> error + 'b) \<Rightarrow> 'a list \<Rightarrow> error + 'b list" where
  "for_each f [] = Inr []"
| "for_each f (x # xs) =
     (case f x of Inl e \<Rightarrow> Inl e
      | Inr y \<Rightarrow> (case for_each f xs of Inl e \<Rightarrow> Inl e | Inr ys \<Rightarrow> Inr (y # ys)))"

section \<open>Sequence ids: \<^verbatim>\<open>getSeqId\<close>\<close>

text \<open>
  The body of the loop of \<^verbatim>\<open>getSeqId\<close>:
  \<^verbatim>\<open>assert (", seq = " in m); seq = int(m.split(',')[1].split("=")[1])\<close>.
\<close>

definition seq_of :: "string \<Rightarrow> error + int" where
  "seq_of m =
     (if \<not> str_in '', seq = '' m then Inl (AssertionError ''getSeqId'')
      else case str_split '','' m of
          f0 # f1 # fs \<Rightarrow>
            (case str_split ''='' f1 of
                g0 # g1 # gs \<Rightarrow>
                  (case py_int g1 of None \<Rightarrow> Inl ValueError | Some n \<Rightarrow> Inr n)
              | _ \<Rightarrow> Inl IndexError)
        | _ \<Rightarrow> Inl IndexError)"

text \<open>
  \<^verbatim>\<open>ids = list(set(ids)); ids.sort()\<close>: the order in which Python lists a set does not
  matter here, since sorting a duplicate-free list of integers has one result.
\<close>

definition getSeqId :: "string list \<Rightarrow> error + int list" where
  "getSeqId mlist =
     (case for_each seq_of mlist of Inl e \<Rightarrow> Inl e | Inr ids \<Rightarrow> Inr (sort (remdups ids)))"

section \<open>Sorting and pruning sequence markers\<close>

text \<open>
  \<^verbatim>\<open>seqcompare\<close>, the sort key:
  \<^verbatim>\<open>assert (", seq = " in elem); l = elem.split(" = "); return l[1] + l[0]\<close>.
\<close>

definition seqcompare :: "string \<Rightarrow> error + string" where
  "seqcompare elem =
     (if \<not> str_in '', seq = '' elem then Inl (AssertionError ''seqcompare'')
      else case str_split '' = '' elem of
          l0 # l1 # ls \<Rightarrow> Inr (l1 @ l0)
        | _ \<Rightarrow> Inl IndexError)"

text \<open>
  \<^verbatim>\<open>mlist.sort(key=seqcompare)\<close>: Python computes the key of every element first, in
  order (also for a list of one element), and then sorts stably by the keys.
\<close>

definition sort_seqcompare :: "string list \<Rightarrow> error + string list" where
  "sort_seqcompare mlist =
     (case for_each seqcompare mlist of
        Inl e \<Rightarrow> Inl e
      | Inr keys \<Rightarrow> Inr (map snd (sort_key fst (zip keys mlist))))"

text \<open>
  \<^verbatim>\<open>prune\<close>. The loop runs over \<^verbatim>\<open>i = 1 .. len(mlist) - 1\<close> with \<^verbatim>\<open>m = mlist[i]\<close> and
  \<^verbatim>\<open>pm = mlist[i - 1]\<close>; \<open>prune_loop pm ms\<close> is the loop at the element after \<open>pm\<close>, and
  returns what it appends to \<^verbatim>\<open>a\<close>. The unpacking \<^verbatim>\<open>name, seq = m.split(",")[0:2]\<close>
  raises \<^verbatim>\<open>ValueError\<close> when the text has no comma.
\<close>

fun prune_loop :: "string \<Rightarrow> string list \<Rightarrow> error + string list" where
  "prune_loop pm [] = Inr []"
| "prune_loop pm (m # ms) =
     (case str_split '','' m of
        name # seq # fs \<Rightarrow>
          (case str_split '','' pm of
             pname # pseq # pfs \<Rightarrow>
               (let similar = (str_in name pname \<or> str_in pname name) in
                case prune_loop m ms of
                  Inl e \<Rightarrow> Inl e
                | Inr a \<Rightarrow> if seq = pseq \<and> similar then Inr a else Inr (m # a))
           | _ \<Rightarrow> Inl ValueError)
      | _ \<Rightarrow> Inl ValueError)"

definition prune :: "string list \<Rightarrow> error + string list" where
  "prune mlist =
     (case mlist of
        [] \<Rightarrow> Inl (AssertionError ''prune'')
      | m # ms \<Rightarrow> (case prune_loop m ms of Inl e \<Rightarrow> Inl e | Inr a \<Rightarrow> Inr (m # a)))"

text \<open>
  \<^verbatim>\<open>mlist = list(set(mlist)); mlist.sort(key=seqcompare); mlist = prune(mlist)\<close>.
  The order in which Python lists a set of texts is not fixed by the language (it follows
  the hashes of the texts), so the listing \<open>pyset\<close> is a parameter of the model. What is
  known of it is \<open>set_listing\<close>: it lists the elements of its argument once each.
\<close>

definition set_listing :: "(string list \<Rightarrow> string list) \<Rightarrow> bool" where
  "set_listing pyset = (\<forall>xs. distinct (pyset xs) \<and> set (pyset xs) = set xs)"

definition dedup_sort_prune ::
  "(string list \<Rightarrow> string list) \<Rightarrow> string list \<Rightarrow> error + string list" where
  "dedup_sort_prune pyset mlist =
     (case sort_seqcompare (pyset mlist) of Inl e \<Rightarrow> Inl e | Inr ms \<Rightarrow> prune ms)"

section \<open>Layer names and call traces\<close>

text \<open>\<^verbatim>\<open>getLayerName\<close>: \<^verbatim>\<open>assert ("layer:" in m); l = m.split(":")[1]\<close>.\<close>

definition layer_of :: "string \<Rightarrow> error + string" where
  "layer_of m =
     (if \<not> str_in ''layer:'' m then Inl (AssertionError ''getLayerName'')
      else case str_split '':'' m of l0 # l1 # ls \<Rightarrow> Inr l1 | _ \<Rightarrow> Inl IndexError)"

definition getLayerName :: "string list \<Rightarrow> error + string list" where
  "getLayerName mlist = for_each layer_of mlist"

text \<open>
  \<^verbatim>\<open>filterTrace\<close> evaluates the last trace marker with the builtin \<^verbatim>\<open>eval\<close>, which is a
  parameter \<open>pyeval\<close> of the model. The values it yields are texts, lists, dictionaries
  (as the instrumentation writes them) and values that are not containers.
\<close>

datatype pyval = PStr string | PList "pyval list" | PDict "(pyval \<times> pyval) list" | PScalar

text \<open>\<^verbatim>\<open>frag in x\<close> for a text \<open>frag\<close> and any value \<open>x\<close>.\<close>

fun py_in :: "string \<Rightarrow> pyval \<Rightarrow> error + bool" where
  "py_in frag (PStr s) = Inr (str_in frag s)"
| "py_in frag (PList vs) = Inr (PStr frag \<in> set vs)"
| "py_in frag (PDict kvs) = Inr (PStr frag \<in> fst ` set kvs)"
| "py_in frag PScalar = Inl TypeError"

text \<open>\<^verbatim>\<open>list(filter(lambda x: frag not in x, mlist))\<close>\<close>

fun filter_out :: "string \<Rightarrow> pyval list \<Rightarrow> error + pyval list" where
  "filter_out frag [] = Inr []"
| "filter_out frag (x # xs) =
     (case py_in frag x of
        Inl e \<Rightarrow> Inl e
      | Inr b \<Rightarrow> (case filter_out frag xs of
                   Inl e \<Rightarrow> Inl e
                 | Inr ys \<Rightarrow> Inr (if b then ys else x # ys)))"

fun filter_all :: "string list \<Rightarrow> pyval list \<Rightarrow> error + pyval list" where
  "filter_all [] mlist = Inr mlist"
| "filter_all (frag # frags) mlist =
     (case filter_out frag mlist of Inl e \<Rightarrow> Inl e | Inr ys \<Rightarrow> filter_all frags ys)"

definition trace_fragments :: "string list" where
  "trace_fragments =
     [''/torch/nn/modules/'', ''/torch/nn/functional.py'', ''/torch/tensor.py'',
      ''/torch/autograd/__init__.py'', ''/torch/_jit_internal.py'',
      ''/pyprof/nvtx/nvmarker.py'', ''/apex/optimizers/'', ''/torch/_utils.py'',
      ''/torch/optim/'']"

definition filterTrace :: "(string \<Rightarrow> error + pyval) \<Rightarrow> string list \<Rightarrow> error + pyval list" where
  "filterTrace pyeval mlist =
     (if mlist = [] then Inr []
      else case pyeval (last mlist) of
          Inl e \<Rightarrow> Inl e
        | Inr (PDict kvs) \<Rightarrow>
            (case map_of kvs (PStr ''traceMarker'') of
               None \<Rightarrow> Inl KeyError
             | Some (PList vs) \<Rightarrow> filter_all trace_fragments vs
             | Some _ \<Rightarrow> Inl (AssertionError ''filterTrace''))
        | Inr _ \<Rightarrow> Inl TypeError)"

section \<open>The marker table and the state of an \<^verbatim>\<open>NVVP\<close> object\<close>

text \<open>
  A row of the temporary table \<^verbatim>\<open>marker\<close> built by \<^verbatim>\<open>createMarkerTable\<close>: the columns
  \<^verbatim>\<open>id\<close>, \<^verbatim>\<open>startTime\<close>, \<^verbatim>\<open>endTime\<close>, \<^verbatim>\<open>objectId\<close> (hexadecimal text) and \<^verbatim>\<open>name\<close> (the
  id of the marker's text in the string table). Ids and time stamps are integers.
\<close>

record marker_row =
  row_id :: int
  startTime :: int
  endTime :: int
  objectId :: string
  name :: int

text \<open>
  The state that \<^verbatim>\<open>getMarkerInfo\<close> reads and writes: the table \<^verbatim>\<open>marker\<close> (its rows in
  table order), the table \<^verbatim>\<open>StringTable\<close> (rows of \<^verbatim>\<open>_id_\<close> and \<^verbatim>\<open>value\<close>), and the
  attribute \<^verbatim>\<open>self.markerId\<close>, which \<^verbatim>\<open>__init__\<close> sets to 0.
\<close>

record nvvp =
  marker :: "marker_row list"
  StringTable :: "(int \<times> string) list"
  markerId :: int

definition init :: "marker_row list \<Rightarrow> (int \<times> string) list \<Rightarrow> nvvp" where
  "init tbl strs = \<lparr>marker = tbl, StringTable = strs, markerId = 0\<rparr>"

text \<open>
  \<^verbatim>\<open>getString\<close>: \<^verbatim>\<open>select value from StringTable where _id_ = id\<close>, then
  \<^verbatim>\<open>assert (len(result) == 1)\<close>.
\<close>

definition getString :: "nvvp \<Rightarrow> int \<Rightarrow> error + string" where
  "getString st i =
     (case filter (\<lambda>kv. fst kv = i) (StringTable st) of
        [kv] \<Rightarrow> Inr (snd kv)
      | _ \<Rightarrow> Inl (AssertionError ''getString''))"

text \<open>
  The containment query of \<^verbatim>\<open>getMarkerInfo\<close>:
  \<^verbatim>\<open>SELECT id,name from marker where objectId = "O" and startTime < s and endTime > e ORDER BY startTime ASC\<close>.
  Rows with equal start times are kept in table order.
\<close>

definition select_enclosing :: "marker_row list \<Rightarrow> string \<Rightarrow> int \<Rightarrow> int \<Rightarrow> marker_row list" where
  "select_enclosing tbl objId s e =
     sort_key startTime
       (filter (\<lambda>r. objectId r = objId \<and> startTime r < s \<and> endTime r > e) tbl)"

text \<open>
  The lookahead query:
  \<^verbatim>\<open>SELECT id,name from marker where objectId = "O" and id > lo and id < hi ORDER BY startTime ASC\<close>.
\<close>

definition select_between :: "marker_row list \<Rightarrow> string \<Rightarrow> int \<Rightarrow> int \<Rightarrow> marker_row list" where
  "select_between tbl objId lo hi =
     sort_key startTime
       (filter (\<lambda>r. objectId r = objId \<and> row_id r > lo \<and> row_id r < hi) tbl)"

text \<open>
  The helper \<^verbatim>\<open>delete\<close>:
  \<^verbatim>\<open>DELETE FROM marker WHERE objectId = "O" AND endTime < sTime - margin\<close> with
  \<^verbatim>\<open>margin = 0\<close>.
\<close>

definition delete :: "string \<Rightarrow> int \<Rightarrow> nvvp \<Rightarrow> nvvp" where
  "delete objId sTime st =
     st\<lparr>marker := filter (\<lambda>r. \<not> (objectId r = objId \<and> endTime r < sTime - 0)) (marker st)\<rparr>"

section \<open>Binning the enclosing markers\<close>

record bins =
  layerMarkers :: "string list"
  traceMarkers :: "string list"
  reprMarkers :: "string list"
  pyprofMarkers :: "string list"
  seqMarkers :: "string list"
  otherMarkers :: "string list"
  bprop :: bool

definition empty_bins :: bins where
  "empty_bins = \<lparr>layerMarkers = [], traceMarkers = [], reprMarkers = [], pyprofMarkers = [],
     seqMarkers = [], otherMarkers = [], bprop = False\<rparr>"

text \<open>The body of the loop \<^verbatim>\<open>for r in result\<close>, after \<^verbatim>\<open>m = self.getString(r['name'])\<close>.\<close>

definition bin_marker :: "string \<Rightarrow> bins \<Rightarrow> bins" where
  "bin_marker m b =
     (if str_in ''CheckpointFunctionBackward'' m then b
      else
        let b1 = (if str_in ''_backward, seq ='' m \<or> str_in ''Backward, seq ='' m
                     \<or> str_in ''Backward0, seq ='' m
                  then b\<lparr>bprop := True\<rparr> else b)
        in
          if str_in ''mod'' m \<and> str_in ''op'' m \<and> str_in ''args'' m \<and> str_in ''type'' m
          then b1\<lparr>pyprofMarkers := pyprofMarkers b1 @ [m]\<rparr>
          else if str_in ''layer:'' m then b1\<lparr>layerMarkers := layerMarkers b1 @ [m]\<rparr>
          else if str_in ''traceMarker'' m then b1\<lparr>traceMarkers := traceMarkers b1 @ [m]\<rparr>
          else if str_in ''strRepr'' m then b1\<lparr>reprMarkers := reprMarkers b1 @ [m]\<rparr>
          else if str_in '', seq = '' m then b1\<lparr>seqMarkers := seqMarkers b1 @ [m]\<rparr>
          else b1\<lparr>otherMarkers := otherMarkers b1 @ [m]\<rparr>)"

fun bin_loop :: "nvvp \<Rightarrow> marker_row list \<Rightarrow> bins \<Rightarrow> error + bins" where
  "bin_loop st [] b = Inr b"
| "bin_loop st (r # rs) b =
     (case getString st (name r) of
        Inl e \<Rightarrow> Inl e
      | Inr m \<Rightarrow> bin_loop st rs (bin_marker m b))"

section \<open>The lookahead between two forward kernels\<close>

text \<open>
  The block under \<^verbatim>\<open>if (len(result) and not bprop)\<close>, with \<open>hiId\<close> the id of the last
  enclosing row. It reads \<^verbatim>\<open>self.markerId\<close>, overwrites it, and collects the texts of
  the rows between the two ids that contain \<^verbatim>\<open>", seq="\<close>.
\<close>

definition lookahead ::
  "(string list \<Rightarrow> string list) \<Rightarrow> string \<Rightarrow> int \<Rightarrow> nvvp \<Rightarrow> (error + string list) \<times> nvvp" where
  "lookahead pyset objId hiId st =
     (let loId = markerId st;
          st1 = st\<lparr>markerId := hiId\<rparr>;
          result1 = select_between (marker st1) objId loId hiId
      in case for_each (\<lambda>r. getString st1 (name r)) result1 of
           Inl e \<Rightarrow> (Inl e, st1)
         | Inr ms \<Rightarrow>
             (let altSeqMarkers = filter (str_in '', seq='') ms
              in if altSeqMarkers \<noteq> [] then (dedup_sort_prune pyset altSeqMarkers, st1)
                 else (Inr altSeqMarkers, st1)))"

section \<open>\<^verbatim>\<open>getMarkerInfo\<close>\<close>

text \<open>The ten values that \<^verbatim>\<open>getMarkerInfo\<close> returns, in the order of the source.\<close>

record marker_info =
  info_layerMarkers :: "string list"
  info_trace :: "pyval list"
  info_reprMarkers :: "string list"
  info_pyprofMarkers :: "string list"
  info_seqMarkers :: "string list"
  info_otherMarkers :: "string list"
  info_altSeqMarkers :: "string list"
  info_seqIds :: "int list"
  info_altSeqIds :: "int list"
  info_layerNames :: "string list"

text \<open>
  The tail of the function: \<^verbatim>\<open>delete(objId, startTime)\<close> has run, and the \<^verbatim>\<open>return\<close>
  evaluates \<^verbatim>\<open>filterTrace\<close>, the two \<^verbatim>\<open>getSeqId\<close> and \<^verbatim>\<open>getLayerName\<close> from left to
  right.
\<close>

definition finish ::
  "(string \<Rightarrow> error + pyval) \<Rightarrow> bins \<Rightarrow> string list \<Rightarrow> string list \<Rightarrow> string list
     \<Rightarrow> error + marker_info" where
  "finish pyeval b seqM otherM altSeqM =
     (case filterTrace pyeval (traceMarkers b) of
        Inl e \<Rightarrow> Inl e
      | Inr tr \<Rightarrow>
     (case getSeqId seqM of
        Inl e \<Rightarrow> Inl e
      | Inr ids \<Rightarrow>
     (case getSeqId altSeqM of
        Inl e \<Rightarrow> Inl e
      | Inr altIds \<Rightarrow>
     (case getLayerName (layerMarkers b) of
        Inl e \<Rightarrow> Inl e
      | Inr layers \<Rightarrow>
          Inr \<lparr>info_layerMarkers = layerMarkers b, info_trace = tr,
               info_reprMarkers = reprMarkers b, info_pyprofMarkers = pyprofMarkers b,
               info_seqMarkers = seqM, info_otherMarkers = otherM,
               info_altSeqMarkers = altSeqM, info_seqIds = ids, info_altSeqIds = altIds,
               info_layerNames = layers\<rparr>))))"

text \<open>
  \<^verbatim>\<open>getMarkerInfo(objId, startTime, endTime)\<close>. The result is the returned tuple or the
  exception raised, together with the state the object is left in: an exception leaves
  the writes made before it in place.
\<close>

definition getMarkerInfo ::
  "(string list \<Rightarrow> string list) \<Rightarrow> (string \<Rightarrow> error + pyval) \<Rightarrow> string \<Rightarrow> int \<Rightarrow> int \<Rightarrow> nvvp
     \<Rightarrow> (error + marker_info) \<times> nvvp" where
  "getMarkerInfo pyset pyeval objId sTime eTime st =
     (let result = select_enclosing (marker st) objId sTime eTime in
      case bin_loop st result empty_bins of
        Inl e \<Rightarrow> (Inl e, st)
      | Inr b \<Rightarrow>
     (case (if seqMarkers b \<noteq> [] then dedup_sort_prune pyset (seqMarkers b)
            else Inr (seqMarkers b)) of
        Inl e \<Rightarrow> (Inl e, st)
      | Inr seqM \<Rightarrow>
     (let otherM = pyset (otherMarkers b) in
      case (if result \<noteq> [] \<and> \<not> bprop b then lookahead pyset objId (row_id (last result)) st
            else (Inr [], st)) of
        (Inl e, st1) \<Rightarrow> (Inl e, st1)
      | (Inr altSeqM, st1) \<Rightarrow>
          (let st2 = delete objId sTime st1 in (finish pyeval b seqM otherM altSeqM, st2)))))"

section \<open>Notions used to state the properties\<close>



text \<open>
  The sort key as a pair: the text cut at \<^verbatim>\<open>" = "\<close> into prefix and suffix, compared by
  suffix first and prefix second, each as plain text. It is used on texts that contain
  the separator, which have both parts.
\<close>

definition pair_key :: "string \<Rightarrow> string \<times> string" where
  "pair_key m = (let l = str_split '' = '' m in (l ! 1, l ! 0))"

definition pair_less :: "string \<times> string \<Rightarrow> string \<times> string \<Rightarrow> bool" where
  "pair_less k k' = (fst k < fst k' \<or> (fst k = fst k' \<and> snd k < snd k'))"

text \<open>
  The test of \<^verbatim>\<open>prune\<close> on a text \<open>m\<close> and a text \<open>pm\<close> before it: the first two fields
  between commas are the name and the sequence part.
\<close>

definition near_duplicate :: "string \<Rightarrow> string \<Rightarrow> bool" where
  "near_duplicate pm m =
     (let name = str_split '','' m ! 0; seq = str_split '','' m ! 1;
          pname = str_split '','' pm ! 0; pseq = str_split '','' pm ! 1
      in seq = pseq \<and> (str_in name pname \<or> str_in pname name))"

text \<open>
  Pruning as the specification words it: each element is compared with the previous
  element that was kept. \<open>prune_kept_loop k ms\<close> scans \<open>ms\<close> with \<open>k\<close> the last element kept.
\<close>

fun prune_kept_loop :: "string \<Rightarrow> string list \<Rightarrow> string list" where
  "prune_kept_loop k [] = []"
| "prune_kept_loop k (m # ms) =
     (if near_duplicate k m then prune_kept_loop k ms else m # prune_kept_loop m ms)"

definition prune_kept :: "string list \<Rightarrow> string list" where
  "prune_kept mlist = (case mlist of [] \<Rightarrow> [] | m # ms \<Rightarrow> m # prune_kept_loop m ms)"

text \<open>
  The categories of the classifier, the list of \<open>bins\<close> that holds each, and the
  category that the chain of tests in the loop of \<^verbatim>\<open>getMarkerInfo\<close> gives a text.
\<close>

datatype category = OpArgs | Layer | Trace | ModuleRepr | Sequence | Other

fun bin_of :: "category \<Rightarrow> bins \<Rightarrow> string list" where
  "bin_of OpArgs b = pyprofMarkers b"
| "bin_of Layer b = layerMarkers b"
| "bin_of Trace b = traceMarkers b"
| "bin_of ModuleRepr b = reprMarkers b"
| "bin_of Sequence b = seqMarkers b"
| "bin_of Other b = otherMarkers b"

definition classify :: "string \<Rightarrow> category" where
  "classify m =
     (if str_in ''mod'' m \<and> str_in ''op'' m \<and> str_in ''args'' m \<and> str_in ''type'' m then OpArgs
      else if str_in ''layer:'' m then Layer
      else if str_in ''traceMarker'' m then Trace
      else if str_in ''strRepr'' m then ModuleRepr
      else if str_in '', seq = '' m then Sequence
      else Other)"

text \<open>
  The instrumentation writes a structured record as the text of a Python dictionary,
  which opens with a brace and closes with one. \<open>record_text\<close> is this necessary
  condition for a text to be such a record.
\<close>

definition record_text :: "string \<Rightarrow> bool" where
  "record_text m = (m \<noteq> [] \<and> hd m = CHR ''{'' \<and> last m = CHR ''}'')"


definition checkpoint_text :: "string \<Rightarrow> bool" where
  "checkpoint_text m = str_in ''CheckpointFunctionBackward'' m"

text \<open>
  A run of resolutions on one object: each call is an object id with the start and end
  time of a kernel, and the state is handed from call to call whatever the call returned.
\<close>

fun resolve_all ::
  "(string list \<Rightarrow> string list) \<Rightarrow> (string \<Rightarrow> error + pyval) \<Rightarrow> (string \<times> int \<times> int) list
     \<Rightarrow> nvvp \<Rightarrow> nvvp" where
  "resolve_all pyset pyeval [] st = st"
| "resolve_all pyset pyeval ((objId, sTime, eTime) # calls) st =
     resolve_all pyset pyeval calls (snd (getMarkerInfo pyset pyeval objId sTime eTime st))"

subsection \<open>Example traces\<close>

definition row :: "int \<Rightarrow> int \<Rightarrow> int \<Rightarrow> string \<Rightarrow> int \<Rightarrow> marker_row" where
  "row i s e obj n = \<lparr>row_id = i, startTime = s, endTime = e, objectId = obj, name = n\<rparr>"

text \<open>An \<^verbatim>\<open>eval\<close> for traces without trace markers: it is never called.\<close>

definition no_eval :: "string \<Rightarrow> error + pyval" where
  "no_eval m = Inl EvalError"

text \<open>
  Two threads \<^verbatim>\<open>A\<close> and \<^verbatim>\<open>B\<close>. On \<^verbatim>\<open>A\<close> marker 1 spans the run and marker 5 is nested in
  it; on \<^verbatim>\<open>B\<close> marker 3 spans the run and marker 2, written with the loose delimiter,
  lies later.
\<close>

definition two_threads :: nvvp where
  "two_threads = init
     [row 1 0 100 ''A'' 10, row 5 5 30 ''A'' 11, row 3 0 100 ''B'' 12, row 2 50 60 ''B'' 13]
     [(10, ''layer:a''), (11, ''foo''), (12, ''layer:b''), (13, ''op, seq=7'')]"


text \<open>
  One thread in the middle of a run: a checkpointing marker (a backward marker by its
  text) and a forward marker enclose the kernel, and two earlier markers are over.
\<close>

definition forward_trace :: nvvp where
  "forward_trace = \<lparr>marker =
       [row 4 0 5 ''A'' 20, row 6 6 8 ''A'' 21, row 7 9 100 ''A'' 22, row 9 10 90 ''A'' 23,
        row 8 0 5 ''B'' 20],
     StringTable =
       [(20, ''add, seq = 3''), (21, ''mul, seq=4''), (22, ''CheckpointFunctionBackward, seq = 5''),
        (23, ''linear, seq = 6'')],
     markerId = 3\<rparr>"

section \<open>Auxiliary facts\<close>

subsection \<open>Texts\<close>

lemma startswith_iff: "startswith s p \<longleftrightarrow> (\<exists>ss. s = p @ ss)"
  by (induction s p rule: startswith.induct) auto

text \<open>\<open>str_in\<close> is the substring relation.\<close>

lemma str_in_iff: "str_in x m \<longleftrightarrow> (\<exists>ps ss. m = ps @ x @ ss)"
proof (induction m)
  case Nil
  show ?case by auto
next
  case (Cons c cs)
  show ?case
  proof
    assume "str_in x (c # cs)"
    then consider "startswith (c # cs) x" | "str_in x cs" by auto
    then show "\<exists>ps ss. c # cs = ps @ x @ ss"
    proof cases
      case 1
      then obtain ss where "c # cs = x @ ss" by (auto simp: startswith_iff)
      then have "c # cs = [] @ x @ ss" by simp
      then show ?thesis by blast
    next
      case 2
      then obtain ps ss where "cs = ps @ x @ ss" using Cons.IH by auto
      then have "c # cs = (c # ps) @ x @ ss" by simp
      then show ?thesis by blast
    qed
  next
    assume "\<exists>ps ss. c # cs = ps @ x @ ss"
    then obtain ps ss where eq: "c # cs = ps @ x @ ss" by blast
    show "str_in x (c # cs)"
    proof (cases ps)
      case Nil
      with eq have "startswith (c # cs) x" by (auto simp: startswith_iff)
      then show ?thesis by simp
    next
      case (Cons p ps')
      with eq have "cs = ps' @ x @ ss" by simp
      then have "str_in x cs" using Cons.IH by blast
      then show ?thesis by simp
    qed
  qed
qed

lemma str_in_trans: "str_in x y \<Longrightarrow> str_in y m \<Longrightarrow> str_in x m"
proof -
  assume "str_in x y" "str_in y m"
  then obtain p1 s1 p2 s2 where "y = p1 @ x @ s1" "m = p2 @ y @ s2"
    by (auto simp: str_in_iff)
  then have "m = (p2 @ p1) @ x @ (s1 @ s2)" by simp
  then show ?thesis unfolding str_in_iff by blast
qed

lemma split_from_nonempty: "split_from sep acc s \<noteq> []"
  by (induction sep acc s rule: split_from.induct) auto

text \<open>A text that contains the separator splits into at least two fields.\<close>

lemma split_from_two:
  "sep \<noteq> [] \<Longrightarrow> str_in sep s \<Longrightarrow> \<exists>f0 f1 fs. split_from sep acc s = f0 # f1 # fs"
proof (induction sep acc s rule: split_from.induct)
  case (1 sep acc)
  then show ?case by simp
next
  case (2 sep acc c cs)
  show ?case
  proof (cases "startswith (c # cs) sep")
    case True
    have "split_from sep [] (drop (length sep) (c # cs)) \<noteq> []"
      by (rule split_from_nonempty)
    then obtain y ys where "split_from sep [] (drop (length sep) (c # cs)) = y # ys"
      by (cases "split_from sep [] (drop (length sep) (c # cs))") auto
    with True 2(3) show ?thesis by simp
  next
    case False
    with 2(4) have "str_in sep cs" by simp
    with 2(2)[OF _ 2(3)] False show ?thesis by simp
  qed
qed

lemma str_split_two:
  "sep \<noteq> [] \<Longrightarrow> str_in sep m \<Longrightarrow> \<exists>f0 f1 fs. str_split sep m = f0 # f1 # fs"
  unfolding str_split_def by (rule split_from_two)

subsection \<open>Loops that may raise\<close>

lemma for_each_Inr_iff:
  "for_each f xs = Inr ys \<longleftrightarrow> map f xs = map Inr ys"
proof (induction xs arbitrary: ys)
  case Nil
  show ?case by auto
next
  case (Cons x xs)
  show ?case
  proof (cases "f x")
    case (Inl e)
    then show ?thesis by (cases ys) auto
  next
    case fx: (Inr y)
    show ?thesis
    proof (cases "for_each f xs")
      case (Inl e)
      then have "\<And>zs. map f xs \<noteq> map Inr zs" using Cons.IH by simp
      with fx Inl show ?thesis by (cases ys) auto
    next
      case (Inr zs)
      then have "map f xs = map Inr zs" using Cons.IH by simp
      with fx Inr show ?thesis by (cases ys) (auto simp: inj_map_eq_map)
    qed
  qed
qed

lemma for_each_Inl:
  "for_each f xs = Inl e \<Longrightarrow> \<exists>x \<in> set xs. f x = Inl e"
  by (induction xs) (auto split: sum.splits)

lemma for_each_total:
  "(\<And>x. x \<in> set xs \<Longrightarrow> \<exists>y. f x = Inr y) \<Longrightarrow> \<exists>ys. for_each f xs = Inr ys"
proof (induction xs)
  case Nil
  show ?case by simp
next
  case (Cons x xs)
  obtain y where "f x = Inr y" using Cons.prems by auto
  moreover obtain ys where "for_each f xs = Inr ys" using Cons by auto
  ultimately show ?case by simp
qed

lemma for_each_length: "for_each f xs = Inr ys \<Longrightarrow> length ys = length xs"
  by (simp add: for_each_Inr_iff) (metis length_map)

subsection \<open>Reading sequence ids\<close>





subsection \<open>Sorting and pruning\<close>

lemma getString_Inl: "getString st i = Inl e \<Longrightarrow> e = AssertionError ''getString''"
  by (auto simp: getString_def split: list.splits)

lemma seqcompare_Inr:
  assumes "str_in '', seq = '' m"
  shows "\<exists>k. seqcompare m = Inr k"
proof -
  have "str_in '' = '' '', seq = ''" by simp
  then have "str_in '' = '' m" using assms by (rule str_in_trans)
  then obtain l0 l1 ls where "str_split '' = '' m = l0 # l1 # ls"
    using str_split_two[of "'' = ''" m] by auto
  with assms show ?thesis by (simp add: seqcompare_def)
qed

lemma seqcompare_Inl:
  "seqcompare m = Inl e \<Longrightarrow> \<not> str_in '', seq = '' m \<and> e = AssertionError ''seqcompare''"
  using seqcompare_Inr[of m] by (cases "str_in '', seq = '' m") (auto simp: seqcompare_def)

lemma mset_sort_seqcompare:
  assumes "sort_seqcompare ms = Inr r"
  shows "mset r = mset ms"
proof -
  from assms obtain keys where k: "for_each seqcompare ms = Inr keys"
    and r: "r = map snd (sort_key fst (zip keys ms))"
    by (auto simp: sort_seqcompare_def split: sum.splits)
  from k have "length keys = length ms" by (rule for_each_length)
  then have "map snd (zip keys ms) = ms" by simp
  moreover have "mset r = mset (map snd (zip keys ms))"
    unfolding r by (simp only: mset_map mset_sort)
  ultimately show ?thesis by simp
qed

text \<open>What the sort yields is in ascending order of the concatenated keys.\<close>

lemma sort_seqcompare_sorted:
  assumes "sort_seqcompare ms = Inr r"
  shows "\<exists>keys. for_each seqcompare r = Inr keys \<and> sorted keys"
proof -
  from assms obtain keys where k: "for_each seqcompare ms = Inr keys"
    and r: "r = map snd (sort_key fst (zip keys ms))"
    by (auto simp: sort_seqcompare_def split: sum.splits)
  let ?z = "sort_key fst (zip keys ms)"
  from k have km: "map seqcompare ms = map Inr keys" by (simp add: for_each_Inr_iff)
  have pairs: "seqcompare m = Inr key" if "(key, m) \<in> set (zip keys ms)" for key m
  proof -
    from that obtain i where i: "i < length (zip keys ms)" "zip keys ms ! i = (key, m)"
      by (auto simp: in_set_conv_nth)
    then have "keys ! i = key" "ms ! i = m" "i < length ms" "i < length keys" by auto
    moreover have "map seqcompare ms ! i = map Inr keys ! i" using km by simp
    ultimately show ?thesis by simp
  qed
  have "map seqcompare (map snd ?z) = map Inr (map fst ?z)"
    using pairs by (auto simp: comp_def)
  then have "for_each seqcompare r = Inr (map fst ?z)"
    unfolding r by (simp only: for_each_Inr_iff)
  moreover have "sorted (map fst ?z)" by (rule sorted_sort_key)
  ultimately show ?thesis by blast
qed

lemma sort_seqcompare_Inr:
  assumes "\<forall>m \<in> set ms. str_in '', seq = '' m"
  shows "\<exists>r. sort_seqcompare ms = Inr r"
proof -
  have "\<exists>keys. for_each seqcompare ms = Inr keys"
    using assms by (intro for_each_total seqcompare_Inr) auto
  then show ?thesis by (auto simp: sort_seqcompare_def)
qed

lemma sort_seqcompare_Inl:
  assumes "sort_seqcompare ms = Inl e"
  shows "e = AssertionError ''seqcompare'' \<and> (\<exists>m \<in> set ms. \<not> str_in '', seq = '' m)"
proof -
  from assms have "for_each seqcompare ms = Inl e"
    by (auto simp: sort_seqcompare_def split: sum.splits)
  then obtain m where "m \<in> set ms" "seqcompare m = Inl e" by (auto dest: for_each_Inl)
  then show ?thesis using seqcompare_Inl by blast
qed

lemma sort_seqcompare_raises:
  assumes "m \<in> set ms" and "\<not> str_in '', seq = '' m"
  shows "sort_seqcompare ms = Inl (AssertionError ''seqcompare'')"
proof (cases "sort_seqcompare ms")
  case (Inl e)
  then show ?thesis using sort_seqcompare_Inl by blast
next
  case (Inr r)
  then obtain keys where "for_each seqcompare ms = Inr keys"
    by (auto simp: sort_seqcompare_def split: sum.splits)
  then have "map seqcompare ms = map Inr keys" by (simp add: for_each_Inr_iff)
  then have "seqcompare m \<in> set (map Inr keys)" using assms(1) by (metis image_eqI set_map)
  then obtain k where "seqcompare m = Inr k" by auto
  then show ?thesis using assms(2) by (auto simp: seqcompare_def split: if_splits)
qed

lemma prune_loop_zip:
  assumes "\<forall>m \<in> set (pm # ms). str_in '','' m"
  shows "prune_loop pm ms
         = Inr (map snd (filter (\<lambda>p. \<not> near_duplicate (fst p) (snd p)) (zip (pm # ms) ms)))"
  using assms
proof (induction ms arbitrary: pm)
  case Nil
  show ?case by simp
next
  case (Cons m ms)
  have "str_in '','' m" "str_in '','' pm" using Cons.prems by auto
  then obtain n s fs pn ps pfs where
    sp: "str_split '','' m = n # s # fs" "str_split '','' pm = pn # ps # pfs"
    using str_split_two[of "'',''" m] str_split_two[of "'',''" pm] by auto
  have ih: "prune_loop m ms
    = Inr (map snd (filter (\<lambda>p. \<not> near_duplicate (fst p) (snd p)) (zip (m # ms) ms)))"
    using Cons.prems by (intro Cons.IH) auto
  have nd: "near_duplicate pm m = (s = ps \<and> (str_in n pn \<or> str_in pn n))"
    using sp by (simp add: near_duplicate_def)
  show ?case using sp ih nd by simp
qed

lemma prune_eq_zip:
  assumes "ms \<noteq> []" and "\<forall>m \<in> set ms. str_in '','' m"
  shows "prune ms
         = Inr (hd ms # map snd (filter (\<lambda>p. \<not> near_duplicate (fst p) (snd p)) (zip ms (tl ms))))"
proof -
  obtain m ms' where ms: "ms = m # ms'" using assms(1) by (cases ms) auto
  with assms(2) have "prune_loop m ms'
     = Inr (map snd (filter (\<lambda>p. \<not> near_duplicate (fst p) (snd p)) (zip (m # ms') ms')))"
    by (intro prune_loop_zip) auto
  with ms show ?thesis by (simp add: prune_def)
qed

lemma prune_subset:
  assumes "ms \<noteq> []" and "\<forall>m \<in> set ms. str_in '','' m"
  shows "\<exists>r. prune ms = Inr r \<and> set r \<subseteq> set ms"
proof -
  let ?r = "hd ms # map snd (filter (\<lambda>p. \<not> near_duplicate (fst p) (snd p)) (zip ms (tl ms)))"
  have "set (map snd (filter (\<lambda>p. \<not> near_duplicate (fst p) (snd p)) (zip ms (tl ms))))
        \<subseteq> set (tl ms)"
    by (auto dest: set_zip_rightD)
  moreover have "set (tl ms) \<subseteq> set ms" using assms(1) by (cases ms) auto
  moreover have "hd ms \<in> set ms" using assms(1) by simp
  ultimately have "set ?r \<subseteq> set ms" by auto
  with prune_eq_zip[OF assms] show ?thesis by blast
qed

lemma dedup_sort_prune_Inr:
  assumes "set_listing pyset" and "ms \<noteq> []" and "\<forall>m \<in> set ms. str_in '', seq = '' m"
  shows "\<exists>r. dedup_sort_prune pyset ms = Inr r \<and> set r \<subseteq> set ms"
proof -
  have ps: "set (pyset ms) = set ms" using assms(1) by (simp add: set_listing_def)
  then have "\<forall>m \<in> set (pyset ms). str_in '', seq = '' m" using assms(3) by simp
  then obtain s where s: "sort_seqcompare (pyset ms) = Inr s"
    using sort_seqcompare_Inr by blast
  then have "mset s = mset (pyset ms)" by (rule mset_sort_seqcompare)
  then have ss: "set s = set ms" using ps by (metis set_mset_mset)
  have c: "str_in '','' '', seq = ''" by simp
  have "s \<noteq> []" using ss assms(2) by auto
  moreover have "\<forall>m \<in> set s. str_in '','' m"
    using ss assms(3) str_in_trans[OF c] by blast
  ultimately obtain r where "prune s = Inr r" "set r \<subseteq> set s" using prune_subset by blast
  with s ss show ?thesis by (auto simp: dedup_sort_prune_def)
qed

lemma dedup_sort_prune_raises:
  assumes "set_listing pyset" and "m \<in> set ms" and "\<not> str_in '', seq = '' m"
  shows "dedup_sort_prune pyset ms = Inl (AssertionError ''seqcompare'')"
proof -
  have "m \<in> set (pyset ms)" using assms(1,2) by (simp add: set_listing_def)
  then have "sort_seqcompare (pyset ms) = Inl (AssertionError ''seqcompare'')"
    using assms(3) by (rule sort_seqcompare_raises)
  then show ?thesis by (simp add: dedup_sort_prune_def)
qed

lemma bin_loop_fold:
  "bin_loop st rows b =
     (case for_each (\<lambda>r. getString st (name r)) rows of
        Inl e \<Rightarrow> Inl e
      | Inr texts \<Rightarrow> Inr (fold bin_marker texts b))"
  by (induction rows arbitrary: b) (auto split: sum.splits)

subsection \<open>Binning and the stages of \<^verbatim>\<open>getMarkerInfo\<close>\<close>

lemma bin_of_bin_marker:
  assumes "\<not> checkpoint_text m"
  shows "bin_of c (bin_marker m b) = (if c = classify m then bin_of c b @ [m] else bin_of c b)"
  using assms
  by (cases c) (simp_all add: bin_marker_def classify_def checkpoint_text_def Let_def)

lemma bin_marker_checkpoint: "checkpoint_text m \<Longrightarrow> bin_marker m b = b"
  by (simp add: bin_marker_def checkpoint_text_def)



lemma bin_of_subset:
  "set (bin_of c (bin_marker m b)) \<subseteq> set (bin_of c b) \<union> {x. x = m \<and> \<not> checkpoint_text m \<and> classify m = c}"
  by (cases "checkpoint_text m") (auto simp: bin_marker_checkpoint bin_of_bin_marker)

lemma bin_of_fold:
  "set (bin_of c (fold bin_marker texts b))
   \<subseteq> set (bin_of c b) \<union> {m \<in> set texts. \<not> checkpoint_text m \<and> classify m = c}"
proof (induction texts arbitrary: b)
  case Nil
  show ?case by simp
next
  case (Cons m texts)
  have "set (bin_of c (fold bin_marker texts (bin_marker m b)))
        \<subseteq> set (bin_of c (bin_marker m b)) \<union> {x \<in> set texts. \<not> checkpoint_text x \<and> classify x = c}"
    by (rule Cons.IH)
  with bin_of_subset[of c m b] show ?case by auto
qed

lemma classify_Sequence: "classify m = Sequence \<Longrightarrow> str_in '', seq = '' m"
  by (auto simp: classify_def split: if_splits)

lemma bin_loop_bins:
  assumes "bin_loop st rows empty_bins = Inr b"
  shows "\<forall>m \<in> set (bin_of c b). \<not> checkpoint_text m \<and> classify m = c"
proof -
  from assms obtain texts where "b = fold bin_marker texts empty_bins"
    by (auto simp: bin_loop_fold split: sum.splits)
  moreover have "bin_of c empty_bins = []" by (cases c) (simp_all add: empty_bins_def)
  ultimately show ?thesis using bin_of_fold[of c texts empty_bins] by auto
qed

lemma seqMarkers_delimiter:
  assumes "bin_loop st rows empty_bins = Inr b"
  shows "\<forall>m \<in> set (seqMarkers b). str_in '', seq = '' m"
  using bin_loop_bins[OF assms, of Sequence] classify_Sequence by auto

lemma lookahead_state:
  "snd (lookahead pyset objId hiId st) = st\<lparr>markerId := hiId\<rparr>"
  by (simp add: lookahead_def Let_def split: sum.splits)

text \<open>The stage of the sequence markers cannot raise.\<close>

lemma seq_stage_Inr:
  assumes "set_listing pyset" and "bin_loop st rows empty_bins = Inr b"
  shows "\<exists>seqM. (if seqMarkers b \<noteq> [] then dedup_sort_prune pyset (seqMarkers b)
                  else Inr (seqMarkers b)) = Inr seqM \<and> set seqM \<subseteq> set (seqMarkers b)"
proof (cases "seqMarkers b = []")
  case True
  then show ?thesis by simp
next
  case False
  with dedup_sort_prune_Inr[OF assms(1) False seqMarkers_delimiter[OF assms(2)]]
  show ?thesis by simp
qed

lemma getMarkerInfo_bin_raises:
  assumes "bin_loop st (select_enclosing (marker st) objId s e) empty_bins = Inl err"
  shows "getMarkerInfo pyset pyeval objId s e st = (Inl err, st)"
  using assms by (simp add: getMarkerInfo_def)

lemma getMarkerInfo_stages:
  assumes "bin_loop st (select_enclosing (marker st) objId s e) empty_bins = Inr b"
    and "(if seqMarkers b \<noteq> [] then dedup_sort_prune pyset (seqMarkers b)
          else Inr (seqMarkers b)) = Inr seqM"
  shows "getMarkerInfo pyset pyeval objId s e st =
    (if select_enclosing (marker st) objId s e \<noteq> [] \<and> \<not> bprop b
     then (case fst (lookahead pyset objId (row_id (last (select_enclosing (marker st) objId s e))) st) of
             Inl err \<Rightarrow> (Inl err, st\<lparr>markerId := row_id (last (select_enclosing (marker st) objId s e))\<rparr>)
           | Inr altSeqM \<Rightarrow>
               (finish pyeval b seqM (pyset (otherMarkers b)) altSeqM,
                delete objId s (st\<lparr>markerId := row_id (last (select_enclosing (marker st) objId s e))\<rparr>)))
     else (finish pyeval b seqM (pyset (otherMarkers b)) [], delete objId s st))"
proof -
  let ?res = "select_enclosing (marker st) objId s e"
  let ?la = "lookahead pyset objId (row_id (last ?res)) st"
  have la: "?la = (fst ?la, st\<lparr>markerId := row_id (last ?res)\<rparr>)"
    using lookahead_state[of pyset objId "row_id (last ?res)" st] by (metis prod.collapse)
  show ?thesis
  proof (cases "?res \<noteq> [] \<and> \<not> bprop b")
    case True
    have "getMarkerInfo pyset pyeval objId s e st =
       (case ?la of (Inl err, st1) \<Rightarrow> (Inl err, st1)
        | (Inr altSeqM, st1) \<Rightarrow> (finish pyeval b seqM (pyset (otherMarkers b)) altSeqM, delete objId s st1))"
      using assms True unfolding getMarkerInfo_def Let_def by (simp split: sum.splits prod.splits)
    also have "\<dots> = (case fst ?la of
             Inl err \<Rightarrow> (Inl err, st\<lparr>markerId := row_id (last ?res)\<rparr>)
           | Inr altSeqM \<Rightarrow>
               (finish pyeval b seqM (pyset (otherMarkers b)) altSeqM,
                delete objId s (st\<lparr>markerId := row_id (last ?res)\<rparr>)))"
      by (subst la) (simp split: sum.splits)
    finally show ?thesis using True by simp
  next
    case False
    have "getMarkerInfo pyset pyeval objId s e st
          = (finish pyeval b seqM (pyset (otherMarkers b)) [], delete objId s st)"
      using assms False unfolding getMarkerInfo_def Let_def by (auto split: sum.splits prod.splits)
    with False show ?thesis by auto
  qed
qed

lemma getMarkerInfo_marker:
  "marker (snd (getMarkerInfo pyset pyeval objId t e st)) = marker st
   \<or> marker (snd (getMarkerInfo pyset pyeval objId t e st))
      = filter (\<lambda>r. \<not> (objectId r = objId \<and> endTime r < t)) (marker st)"
  unfolding getMarkerInfo_def Let_def
  by (auto simp: lookahead_def delete_def Let_def split: sum.splits prod.splits if_splits)

lemma getMarkerInfo_evicts:
  assumes "fst (getMarkerInfo pyset pyeval objId t e st) = Inr info"
  shows "marker (snd (getMarkerInfo pyset pyeval objId t e st))
      = filter (\<lambda>r. \<not> (objectId r = objId \<and> endTime r < t)) (marker st)"
  using assms unfolding getMarkerInfo_def Let_def
  by (auto simp: lookahead_def delete_def Let_def split: sum.splits prod.splits if_splits)

lemma resolve_all_subset:
  "set (marker (resolve_all pyset pyeval calls st)) \<subseteq> set (marker st)"
proof (induction calls arbitrary: st)
  case Nil
  show ?case by simp
next
  case (Cons c calls)
  obtain objId t e where c: "c = (objId, t, e)" by (cases c) auto
  have "set (marker (snd (getMarkerInfo pyset pyeval objId t e st))) \<subseteq> set (marker st)"
    using getMarkerInfo_marker[of pyset pyeval objId t e st] by auto
  with Cons.IH[of "snd (getMarkerInfo pyset pyeval objId t e st)"] c show ?case by auto
qed

lemma set_listing_remdups: "set_listing remdups"
  by (simp add: set_listing_def)

lemma markerId_finish_stage:
  "markerId (delete objId s st) = markerId st"
  by (simp add: delete_def)

lemma getMarkerInfo_markerId:
  assumes "set_listing pyset"
  shows "markerId (snd (getMarkerInfo pyset pyeval objId s e st)) =
     (case bin_loop st (select_enclosing (marker st) objId s e) empty_bins of
        Inl err \<Rightarrow> markerId st
      | Inr b \<Rightarrow>
          if select_enclosing (marker st) objId s e \<noteq> [] \<and> \<not> bprop b
          then row_id (last (select_enclosing (marker st) objId s e))
          else markerId st)"
proof (cases "bin_loop st (select_enclosing (marker st) objId s e) empty_bins")
  case (Inl err)
  then show ?thesis by (simp add: getMarkerInfo_bin_raises)
next
  case (Inr b)
  obtain seqM where "(if seqMarkers b \<noteq> [] then dedup_sort_prune pyset (seqMarkers b)
                  else Inr (seqMarkers b)) = Inr seqM"
    using seq_stage_Inr[OF assms Inr] by blast
  from getMarkerInfo_stages[OF Inr this, of pyeval] Inr show ?thesis
    by (simp add: markerId_finish_stage split: sum.splits)
qed



lemma getString_markerId: "getString (st\<lparr>markerId := i\<rparr>) = getString st"
  by (rule ext) (simp add: getString_def)

lemma for_each_raises:
  assumes "x \<in> set xs" and "f x = Inl e"
  shows "\<exists>e'. for_each f xs = Inl e'"
proof (cases "for_each f xs")
  case (Inl e')
  then show ?thesis by blast
next
  case (Inr ys)
  then have "map f xs = map Inr ys" by (simp add: for_each_Inr_iff)
  then have "f x \<in> set (map Inr ys)" using assms(1) by (metis image_eqI set_map)
  with assms(2) show ?thesis by auto
qed

lemma lookahead_loose:
  assumes "set_listing pyset"
    and "r \<in> set (select_between (marker st) objId (markerId st) hiId)"
    and "getString st (name r) = Inr m"
    and "str_in '', seq='' m" and "\<not> str_in '', seq = '' m"
  shows "\<exists>err. fst (lookahead pyset objId hiId st) = Inl err
       \<and> err \<in> {AssertionError ''seqcompare'', AssertionError ''getString''}
       \<and> ((\<forall>r' \<in> set (select_between (marker st) objId (markerId st) hiId).
              \<not> isl (getString st (name r')))
            \<longrightarrow> err = AssertionError ''seqcompare'')"
proof -
  let ?win = "select_between (marker st) objId (markerId st) hiId"
  let ?texts = "for_each (\<lambda>r. getString st (name r)) ?win"
  show ?thesis
  proof (cases ?texts)
    case (Inl err)
    then obtain r' where r': "r' \<in> set ?win" "getString st (name r') = Inl err"
      by (auto dest: for_each_Inl)
    then have "err = AssertionError ''getString''" by (auto dest: getString_Inl)
    with Inl have "fst (lookahead pyset objId hiId st) = Inl (AssertionError ''getString'')"
      by (simp add: lookahead_def Let_def getString_markerId)
    moreover have "isl (getString st (name r'))" using r'(2) by simp
    then have "\<not> (\<forall>r' \<in> set ?win. \<not> isl (getString st (name r')))"
      using r'(1) by blast
    ultimately show ?thesis by blast
  next
    case (Inr ms)
    then have "map (\<lambda>r. getString st (name r)) ?win = map Inr ms"
      by (simp add: for_each_Inr_iff)
    then have "getString st (name r) \<in> set (map Inr ms)"
      using assms(2) by (metis (no_types, lifting) image_eqI set_map)
    then have "m \<in> set ms" using assms(3) by auto
    then have mem: "m \<in> set (filter (str_in '', seq='') ms)" using assms(4) by simp
    then have ne: "filter (str_in '', seq='') ms \<noteq> []"
      by (metis empty_iff empty_set)
    have "dedup_sort_prune pyset (filter (str_in '', seq='') ms)
          = Inl (AssertionError ''seqcompare'')"
      using assms(1) mem assms(5) by (rule dedup_sort_prune_raises)
    with Inr ne have "fst (lookahead pyset objId hiId st) = Inl (AssertionError ''seqcompare'')"
      by (simp add: lookahead_def Let_def getString_markerId)
    then show ?thesis by simp
  qed
qed

section \<open>The containment query (C1)\<close>

text \<open>
  C1: for every object id and kernel interval, the containment query of \<^verbatim>\<open>getMarkerInfo\<close>
  returns exactly the rows of the table with that object id whose start time is less than
  the kernel's start and whose end time is greater than the kernel's end, each once, in
  ascending order of start time; a row that starts with the kernel or ends with it is
  never returned.
\<close>

theorem containment_query_strict:
  "set (select_enclosing tbl objId s e)
     = {r \<in> set tbl. objectId r = objId \<and> startTime r < s \<and> endTime r > e}
   \<and> mset (select_enclosing tbl objId s e)
     = filter_mset (\<lambda>r. objectId r = objId \<and> startTime r < s \<and> endTime r > e) (mset tbl)
   \<and> sorted (map startTime (select_enclosing tbl objId s e))
   \<and> (\<forall>r \<in> set (select_enclosing tbl objId s e). startTime r \<noteq> s \<and> endTime r \<noteq> e)"
  by (auto simp: select_enclosing_def)

theorem containment_query_strict_witness:
  "select_enclosing (marker two_threads) ''A'' 5 30 = [row 1 0 100 ''A'' 10]
   \<and> row 5 5 30 ''A'' 11 \<in> set (marker two_threads)
   \<and> row 5 5 30 ''A'' 11 \<notin> set (select_enclosing (marker two_threads) ''A'' 5 30)"
proof -
  have v: "select_enclosing (marker two_threads) ''A'' 5 30 = [row 1 0 100 ''A'' 10]"
    by code_simp
  have m: "row 5 5 30 ''A'' 11 \<in> set (marker two_threads)" by code_simp
  have "startTime (row 5 5 30 ''A'' 11) = 5" by (simp add: row_def)
  with containment_query_strict[of "marker two_threads" "''A''" 5 30]
  have "row 5 5 30 ''A'' 11 \<notin> set (select_enclosing (marker two_threads) ''A'' 5 30)"
    by blast
  with v m show ?thesis by blast
qed

section \<open>Eviction (C2)\<close>

text \<open>
  C2: when \<^verbatim>\<open>getMarkerInfo\<close> has resolved a kernel of object \<open>objId\<close> with start time \<open>t\<close>,
  the table is the old table without the rows of \<open>objId\<close> whose end time is less than \<open>t\<close>;
  after any further resolutions no containment query for \<open>objId\<close> returns a row with end
  time less than \<open>t\<close>; and the rows of the other objects are as they were.
\<close>

theorem eviction_monotone:
  assumes "fst (getMarkerInfo pyset pyeval objId t e st) = Inr info"
  shows "marker (snd (getMarkerInfo pyset pyeval objId t e st))
           = filter (\<lambda>r. \<not> (objectId r = objId \<and> endTime r < t)) (marker st)
       \<and> (\<forall>calls s' e'. \<forall>r \<in> set (select_enclosing
              (marker (resolve_all pyset pyeval calls (snd (getMarkerInfo pyset pyeval objId t e st))))
              objId s' e'). t \<le> endTime r)
       \<and> filter (\<lambda>r. objectId r \<noteq> objId) (marker (snd (getMarkerInfo pyset pyeval objId t e st)))
           = filter (\<lambda>r. objectId r \<noteq> objId) (marker st)"
proof (intro conjI allI ballI)
  let ?st' = "snd (getMarkerInfo pyset pyeval objId t e st)"
  show ev: "marker ?st' = filter (\<lambda>r. \<not> (objectId r = objId \<and> endTime r < t)) (marker st)"
    using assms by (rule getMarkerInfo_evicts)
  show "filter (\<lambda>r. objectId r \<noteq> objId) (marker ?st') = filter (\<lambda>r. objectId r \<noteq> objId) (marker st)"
    unfolding ev by (simp add: conj_commute cong: conj_cong)
  fix calls s' e' r
  assume "r \<in> set (select_enclosing (marker (resolve_all pyset pyeval calls ?st')) objId s' e')"
  then have "r \<in> set (marker (resolve_all pyset pyeval calls ?st'))" and o: "objectId r = objId"
    by (auto simp: select_enclosing_def)
  then have "r \<in> set (marker ?st')" using resolve_all_subset by blast
  with o show "t \<le> endTime r" unfolding ev by auto
qed

theorem eviction_monotone_witness:
  "\<not> isl (fst (getMarkerInfo remdups no_eval ''A'' 20 30 (forward_trace\<lparr>markerId := 6\<rparr>)))
   \<and> marker (snd (getMarkerInfo remdups no_eval ''A'' 20 30 (forward_trace\<lparr>markerId := 6\<rparr>)))
       = [row 7 9 100 ''A'' 22, row 9 10 90 ''A'' 23, row 8 0 5 ''B'' 20]"
proof -
  let ?c = "getMarkerInfo remdups no_eval ''A'' 20 30 (forward_trace\<lparr>markerId := 6\<rparr>)"
  have "\<not> isl (fst ?c)" by code_simp
  then obtain info where h: "fst ?c = Inr info" by (cases "fst ?c") auto
  have "filter (\<lambda>r. \<not> (objectId r = ''A'' \<and> endTime r < 20)) (marker (forward_trace\<lparr>markerId := 6\<rparr>))
        = [row 7 9 100 ''A'' 22, row 9 10 90 ''A'' 23, row 8 0 5 ''B'' 20]"
    by code_simp
  with eviction_monotone[OF h] \<open>\<not> isl (fst ?c)\<close> show ?thesis by simp
qed

section \<open>Classification (C3)\<close>

text \<open>
  C3, as stated, lets a text be classified \<^verbatim>\<open>opArgs\<close> only if it is a structured record
  with the four keys. The code tests for the four substrings \<^verbatim>\<open>mod\<close>, \<^verbatim>\<open>op\<close>, \<^verbatim>\<open>args\<close>
  and \<^verbatim>\<open>type\<close> anywhere in the text: the plain layer marker below is no record, and it is
  put with the \<^verbatim>\<open>opArgs\<close> markers and not with the layer markers.
\<close>

theorem opArgs_by_substrings:
  "classify ''layer:mod op args type'' = OpArgs
   \<and> pyprofMarkers (bin_marker ''layer:mod op args type'' empty_bins) = [''layer:mod op args type'']
   \<and> layerMarkers (bin_marker ''layer:mod op args type'' empty_bins) = []
   \<and> \<not> record_text ''layer:mod op args type''"
  by code_simp

text \<open>
  C3, amended: every marker text that passes the pre-filter is appended to exactly one of
  the six lists, the one of its category, and the category is found by the tests in fixed
  order: \<^verbatim>\<open>opArgs\<close> when the text contains the four substrings \<^verbatim>\<open>mod\<close>, \<^verbatim>\<open>op\<close>, \<^verbatim>\<open>args\<close>
  and \<^verbatim>\<open>type\<close>; else \<^verbatim>\<open>layer\<close> when it contains \<^verbatim>\<open>layer:\<close>; else \<^verbatim>\<open>trace\<close> when it
  contains \<^verbatim>\<open>traceMarker\<close>; else \<^verbatim>\<open>moduleRepr\<close> when it contains \<^verbatim>\<open>strRepr\<close>; else
  \<^verbatim>\<open>sequence\<close> when it contains \<^verbatim>\<open>", seq = "\<close>; else \<^verbatim>\<open>other\<close>. So a text that passes the
  first test and contains \<^verbatim>\<open>layer:\<close> is classified \<^verbatim>\<open>opArgs\<close>.
\<close>

theorem classification_priority:
  assumes "\<not> checkpoint_text m"
  shows "(\<forall>c. bin_of c (bin_marker m b) = (if c = classify m then bin_of c b @ [m] else bin_of c b))
    \<and> (classify m = OpArgs
         \<longleftrightarrow> str_in ''mod'' m \<and> str_in ''op'' m \<and> str_in ''args'' m \<and> str_in ''type'' m)
    \<and> (classify m = Layer \<longleftrightarrow> classify m \<noteq> OpArgs \<and> str_in ''layer:'' m)
    \<and> (classify m = Trace
         \<longleftrightarrow> classify m \<notin> {OpArgs, Layer} \<and> str_in ''traceMarker'' m)
    \<and> (classify m = ModuleRepr
         \<longleftrightarrow> classify m \<notin> {OpArgs, Layer, Trace} \<and> str_in ''strRepr'' m)
    \<and> (classify m = Sequence
         \<longleftrightarrow> classify m \<notin> {OpArgs, Layer, Trace, ModuleRepr} \<and> str_in '', seq = '' m)
    \<and> (classify m = Other
         \<longleftrightarrow> classify m \<notin> {OpArgs, Layer, Trace, ModuleRepr, Sequence})"
proof (intro conjI allI)
  fix c
  show "bin_of c (bin_marker m b) = (if c = classify m then bin_of c b @ [m] else bin_of c b)"
    using assms by (rule bin_of_bin_marker)
next
  show "classify m = OpArgs
         \<longleftrightarrow> str_in ''mod'' m \<and> str_in ''op'' m \<and> str_in ''args'' m \<and> str_in ''type'' m"
    by (simp add: classify_def)
next
  show "classify m = Layer \<longleftrightarrow> classify m \<noteq> OpArgs \<and> str_in ''layer:'' m"
    by (simp add: classify_def)
next
  show "classify m = Trace \<longleftrightarrow> classify m \<notin> {OpArgs, Layer} \<and> str_in ''traceMarker'' m"
    by (simp add: classify_def)
next
  show "classify m = ModuleRepr
         \<longleftrightarrow> classify m \<notin> {OpArgs, Layer, Trace} \<and> str_in ''strRepr'' m"
    by (simp add: classify_def)
next
  show "classify m = Sequence
         \<longleftrightarrow> classify m \<notin> {OpArgs, Layer, Trace, ModuleRepr} \<and> str_in '', seq = '' m"
    by (simp add: classify_def)
next
  show "classify m = Other \<longleftrightarrow> classify m \<notin> {OpArgs, Layer, Trace, ModuleRepr, Sequence}"
    by (cases "classify m") simp_all
qed

theorem classification_priority_witness:
  "\<not> checkpoint_text ''{'mod': 'F', 'op': 'linear', 'args': [{'type': 'int'}], 'x': 'layer:'}''
   \<and> pyprofMarkers (bin_marker ''{'mod': 'F', 'op': 'linear', 'args': [{'type': 'int'}], 'x': 'layer:'}'' empty_bins)
       = [''{'mod': 'F', 'op': 'linear', 'args': [{'type': 'int'}], 'x': 'layer:'}'']
   \<and> layerMarkers (bin_marker ''{'mod': 'F', 'op': 'linear', 'args': [{'type': 'int'}], 'x': 'layer:'}'' empty_bins) = []"
proof -
  let ?m = "''{'mod': 'F', 'op': 'linear', 'args': [{'type': 'int'}], 'x': 'layer:'}''"
  have h: "\<not> checkpoint_text ?m" by code_simp
  have c: "classify ?m = OpArgs" by code_simp
  have e: "pyprofMarkers empty_bins = []" "layerMarkers empty_bins = []"
    by (simp_all add: empty_bins_def)
  from classification_priority[OF h, of empty_bins]
  have "\<forall>c. bin_of c (bin_marker ?m empty_bins)
            = (if c = classify ?m then bin_of c empty_bins @ [?m] else bin_of c empty_bins)"
    by blast
  then have "bin_of OpArgs (bin_marker ?m empty_bins) = bin_of OpArgs empty_bins @ [?m]"
    and "bin_of Layer (bin_marker ?m empty_bins) = bin_of Layer empty_bins"
    using c by simp_all
  with h e show ?thesis by simp
qed

section \<open>The lookahead cursor (C4)\<close>

text \<open>
  C4, as stated, has one cursor per object id, which never decreases. The code has the one
  attribute \<^verbatim>\<open>self.markerId\<close> for all objects and overwrites it. In the trace of two
  threads, the resolution of a kernel of \<^verbatim>\<open>A\<close> sets the cursor to 5, and the next kernel of
  \<^verbatim>\<open>A\<close> sets it back to 1. The resolution of a kernel of \<^verbatim>\<open>B\<close> reads the cursor that \<^verbatim>\<open>A\<close>
  left: started at 0 it meets the marker between 0 and 3 and raises, started after the
  kernel of \<^verbatim>\<open>A\<close> it looks between 5 and 3, finds nothing and returns; it then sets the
  cursor from 5 back to 3.
\<close>

theorem cursor_not_per_object:
  "markerId two_threads = 0
   \<and> markerId (snd (getMarkerInfo remdups no_eval ''A'' 10 20 two_threads)) = 5
   \<and> markerId (snd (getMarkerInfo remdups no_eval ''A'' 40 50
        (snd (getMarkerInfo remdups no_eval ''A'' 10 20 two_threads)))) = 1
   \<and> fst (getMarkerInfo remdups no_eval ''B'' 10 20 two_threads)
       = Inl (AssertionError ''seqcompare'')
   \<and> \<not> isl (fst (getMarkerInfo remdups no_eval ''B'' 10 20
        (snd (getMarkerInfo remdups no_eval ''A'' 10 20 two_threads))))
   \<and> markerId (snd (getMarkerInfo remdups no_eval ''B'' 10 20
        (snd (getMarkerInfo remdups no_eval ''A'' 10 20 two_threads)))) = 3"
  by code_simp

text \<open>
  C4, amended: the lookahead cursor is the single attribute \<^verbatim>\<open>markerId\<close> of the object, 0
  at first and shared by all object ids. A resolution whose containment query returns at
  least one row, whose enclosing texts are all read and which is no backward pass
  overwrites the cursor with the id of the last enclosing row in start-time order,
  whatever the cursor was and whatever the object id; any other resolution leaves it as
  it is. It is never deleted.
\<close>

theorem cursor_single_shared:
  assumes "set_listing pyset"
  shows "markerId (snd (getMarkerInfo pyset pyeval objId s e st)) =
     (case bin_loop st (select_enclosing (marker st) objId s e) empty_bins of
        Inl err \<Rightarrow> markerId st
      | Inr b \<Rightarrow>
          if select_enclosing (marker st) objId s e \<noteq> [] \<and> \<not> bprop b
          then row_id (last (select_enclosing (marker st) objId s e))
          else markerId st)"
  using assms by (rule getMarkerInfo_markerId)

theorem cursor_single_shared_witness:
  "set_listing remdups
   \<and> markerId (snd (getMarkerInfo remdups no_eval ''B'' 10 20
        (snd (getMarkerInfo remdups no_eval ''A'' 10 20 two_threads)))) = 3"
proof -
  let ?st1 = "snd (getMarkerInfo remdups no_eval ''A'' 10 20 two_threads)"
  have "(case bin_loop ?st1 (select_enclosing (marker ?st1) ''B'' 10 20) empty_bins of
        Inl err \<Rightarrow> markerId ?st1
      | Inr b \<Rightarrow>
          if select_enclosing (marker ?st1) ''B'' 10 20 \<noteq> [] \<and> \<not> bprop b
          then row_id (last (select_enclosing (marker ?st1) ''B'' 10 20))
          else markerId ?st1) = 3"
    by code_simp
  with cursor_single_shared[OF set_listing_remdups, of no_eval "''B''" 10 20 ?st1]
    set_listing_remdups show ?thesis by simp
qed

section \<open>Sequence-id extraction (C5)\<close>




section \<open>The sort order of sequence markers (C6)\<close>

text \<open>
  C6. The comment in \<^verbatim>\<open>seqcompare\<close> reads ``sort by sequence id and then the string'', the
  order by the pair of suffix and prefix. The key it returns is the one text
  \<^verbatim>\<open>l[1] + l[0]\<close>, and comparing the concatenations is not comparing the pairs when one
  suffix is the beginning of another: of \<^verbatim>\<open>"mul, seq = 1"\<close> and \<^verbatim>\<open>"add, seq = 12"\<close> the
  first has the smaller pair (\<^verbatim>\<open>"1"\<close> is less than \<^verbatim>\<open>"12"\<close>), yet the sort puts it last,
  because \<^verbatim>\<open>"12add, seq"\<close> is less than \<^verbatim>\<open>"1mul, seq"\<close>.
\<close>

theorem sort_key_is_concatenation:
  "pair_key ''mul, seq = 1'' = (''1'', ''mul, seq'')
   \<and> pair_key ''add, seq = 12'' = (''12'', ''add, seq'')
   \<and> pair_less (pair_key ''mul, seq = 1'') (pair_key ''add, seq = 12'')
   \<and> seqcompare ''mul, seq = 1'' = Inr ''1mul, seq''
   \<and> seqcompare ''add, seq = 12'' = Inr ''12add, seq''
   \<and> sort_seqcompare [''mul, seq = 1'', ''add, seq = 12'']
       = Inr [''add, seq = 12'', ''mul, seq = 1'']
   \<and> sort_seqcompare [''add, seq = 12'', ''mul, seq = 1'']
       = Inr [''add, seq = 12'', ''mul, seq = 1'']
   \<and> dedup_sort_prune remdups [''mul, seq = 1'', ''add, seq = 12'']
       = Inr [''add, seq = 12'', ''mul, seq = 1'']"
  by code_simp

section \<open>Pruning (C7)\<close>

text \<open>
  C7, as stated, compares each element with the previous element that was kept. The code
  compares it with \<^verbatim>\<open>mlist[i - 1]\<close>, the element just before it, kept or not. On the sorted
  list below the third text is similar to the second (which was discarded) and not to
  the first (which was kept): the code discards it, the stated rule keeps it.
\<close>

theorem prune_not_previous_kept:
  "sort_seqcompare [''ab, seq = 5'', ''abc, seq = 5'', ''bc, seq = 5'']
     = Inr [''ab, seq = 5'', ''abc, seq = 5'', ''bc, seq = 5'']
   \<and> prune [''ab, seq = 5'', ''abc, seq = 5'', ''bc, seq = 5''] = Inr [''ab, seq = 5'']
   \<and> prune_kept [''ab, seq = 5'', ''abc, seq = 5'', ''bc, seq = 5'']
     = [''ab, seq = 5'', ''bc, seq = 5'']"
  by code_simp

text \<open>
  C7, amended: for every non-empty list of marker texts that each contain a comma, \<^verbatim>\<open>prune\<close>
  keeps the first element and, of each later element, takes the first two fields between
  commas as name and sequence part and compares them with those of the element just
  before it in the list: the element is discarded iff the sequence parts are equal and
  one name occurs in the other. The kept elements stay in their order.
\<close>

theorem prune_previous_element:
  assumes "ms \<noteq> []" and "\<forall>m \<in> set ms. str_in '','' m"
  shows "prune ms
         = Inr (hd ms # map snd (filter (\<lambda>p. \<not> near_duplicate (fst p) (snd p)) (zip ms (tl ms))))"
  using assms by (rule prune_eq_zip)

theorem prune_previous_element_witness:
  "str_in '','' ''convA, seq = 5'' \<and> str_in '','' ''convA_bwd, seq = 5''
   \<and> str_in '','' ''convB, seq = 6''
   \<and> prune [''convA, seq = 5'', ''convA_bwd, seq = 5'', ''convB, seq = 6'']
       = Inr [''convA, seq = 5'', ''convB, seq = 6'']"
proof -
  let ?L = "[''convA, seq = 5'', ''convA_bwd, seq = 5'', ''convB, seq = 6'']"
  have c: "str_in '','' ''convA, seq = 5''" "str_in '','' ''convA_bwd, seq = 5''"
    "str_in '','' ''convB, seq = 6''"
    by code_simp+
  have h1: "?L \<noteq> []" by simp
  have h2: "\<forall>m \<in> set ?L. str_in '','' m" using c by simp
  have "hd ?L # map snd (filter (\<lambda>p. \<not> near_duplicate (fst p) (snd p)) (zip ?L (tl ?L)))
        = [''convA, seq = 5'', ''convB, seq = 6'']" by code_simp
  with prune_previous_element[OF h1 h2] c show ?thesis by simp
qed

section \<open>The pre-filter (C8)\<close>




section \<open>The loose delimiter in the lookahead (C9)\<close>

text \<open>
  C9: in a forward resolution (the kernel has an enclosing marker, the enclosing texts are
  read, none marks a backward pass), if the window between the cursor and the last
  enclosing row holds a marker whose text contains \<^verbatim>\<open>", seq="\<close> and not \<^verbatim>\<open>", seq = "\<close>, then
  \<^verbatim>\<open>getMarkerInfo\<close> raises an \<^verbatim>\<open>AssertionError\<close> and returns nothing. The assertion is the
  one of the sort key when the texts of the window are all read (otherwise it may be the
  one of \<^verbatim>\<open>getString\<close>).
\<close>

theorem loose_delimiter_raises:
  assumes "set_listing pyset"
    and "bin_loop st (select_enclosing (marker st) objId s e) empty_bins = Inr b"
    and "select_enclosing (marker st) objId s e \<noteq> []" and "\<not> bprop b"
    and "r \<in> set (select_between (marker st) objId (markerId st)
                    (row_id (last (select_enclosing (marker st) objId s e))))"
    and "getString st (name r) = Inr m"
    and "str_in '', seq='' m" and "\<not> str_in '', seq = '' m"
  shows "fst (getMarkerInfo pyset pyeval objId s e st)
           \<in> {Inl (AssertionError ''seqcompare''), Inl (AssertionError ''getString'')}
       \<and> ((\<forall>r' \<in> set (select_between (marker st) objId (markerId st)
                         (row_id (last (select_enclosing (marker st) objId s e)))).
              \<not> isl (getString st (name r')))
            \<longrightarrow> fst (getMarkerInfo pyset pyeval objId s e st) = Inl (AssertionError ''seqcompare''))"
proof -
  let ?hi = "row_id (last (select_enclosing (marker st) objId s e))"
  obtain seqM where sm: "(if seqMarkers b \<noteq> [] then dedup_sort_prune pyset (seqMarkers b)
                  else Inr (seqMarkers b)) = Inr seqM"
    using seq_stage_Inr[OF assms(1,2)] by blast
  obtain err where err: "fst (lookahead pyset objId ?hi st) = Inl err"
    and cases: "err \<in> {AssertionError ''seqcompare'', AssertionError ''getString''}"
    and resolved: "(\<forall>r' \<in> set (select_between (marker st) objId (markerId st) ?hi).
              \<not> isl (getString st (name r'))) \<longrightarrow> err = AssertionError ''seqcompare''"
    using lookahead_loose[OF assms(1) assms(5-8)] by blast
  have "fst (getMarkerInfo pyset pyeval objId s e st) = Inl err"
    using getMarkerInfo_stages[OF assms(2) sm, of pyeval] assms(3,4) err by simp
  with cases resolved show ?thesis by auto
qed

theorem loose_delimiter_raises_witness:
  "set_listing remdups
   \<and> row 6 6 8 ''A'' 21 \<in> set (select_between (marker forward_trace) ''A'' (markerId forward_trace)
        (row_id (last (select_enclosing (marker forward_trace) ''A'' 20 30))))
   \<and> getString forward_trace (name (row 6 6 8 ''A'' 21)) = Inr ''mul, seq=4''
   \<and> fst (getMarkerInfo remdups no_eval ''A'' 20 30 forward_trace)
       = Inl (AssertionError ''seqcompare'')"
proof -
  let ?b = "\<lparr>layerMarkers = [], traceMarkers = [], reprMarkers = [], pyprofMarkers = [],
     seqMarkers = [''linear, seq = 6''], otherMarkers = [], bprop = False\<rparr>"
  let ?res = "select_enclosing (marker forward_trace) ''A'' 20 30"
  let ?win = "select_between (marker forward_trace) ''A'' (markerId forward_trace) (row_id (last ?res))"
  have h2: "bin_loop forward_trace ?res empty_bins = Inr ?b" by code_simp
  have h3: "?res \<noteq> []" by code_simp
  have h4: "\<not> bprop ?b" by simp
  have h5: "row 6 6 8 ''A'' 21 \<in> set ?win" by code_simp
  have h6: "getString forward_trace (name (row 6 6 8 ''A'' 21)) = Inr ''mul, seq=4''" by code_simp
  have h7: "str_in '', seq='' ''mul, seq=4''" by code_simp
  have h8: "\<not> str_in '', seq = '' ''mul, seq=4''" by code_simp
  have all: "\<forall>r' \<in> set ?win. \<not> isl (getString forward_trace (name r'))" by code_simp
  from loose_delimiter_raises[OF set_listing_remdups h2 h3 h4 h5 h6 h7 h8, of no_eval] all
  have "fst (getMarkerInfo remdups no_eval ''A'' 20 30 forward_trace)
       = Inl (AssertionError ''seqcompare'')" by blast
  with set_listing_remdups h5 h6 show ?thesis by blast
qed

section \<open>Checkpointing markers and backward detection (C10)\<close>



end
